theory Spec2Isabelle
  imports Main
begin

section \<open>Syntax trees handed to the analyzer\<close>

text \<open>
  The analyzer of \<^verbatim>\<open>scripts/analyzer/analyzer.py\<close> works on trees of Python's
  \<^verbatim>\<open>ast\<close> module. Only the node kinds and fields the analyzer inspects are kept; every
  other expression kind is \<open>OtherExpr\<close> with its child expressions.
\<close>

datatype const_value = CNone | CBool bool | CInt int | CStr string | CEllipsis | COther

datatype unaryop = USub | UAdd | Invert | Not

datatype operator = BitOr | BitAnd | BitXor | Add | Sub | Mult | Div | OtherOp

datatype boolop = And | Or

datatype expr =
    Name string
  | Constant const_value
  | Subscript expr expr
  | Attribute expr string
  | BinOp expr operator expr
  | Call expr "expr list"
  | Slice "expr option" "expr option" "expr option"
  | Tuple "expr list"
  | List "expr list"
  | UnaryOp unaryop expr
  | BoolOp boolop "expr list"
  | Dict "expr option list" "expr list"
  | IfExp expr expr expr
  | Lambda expr
  | Set "expr list"
  | Compare expr "expr list"
  | JoinedStr "expr list"
  | OtherExpr "expr list"

section \<open>Counting the types of an annotation\<close>

text \<open>
  \<^verbatim>\<open>handle_annotation_basic\<close> adds to the attribute \<^verbatim>\<open>self.last_count\<close>; the attribute is
  the second argument and the result. The chain of \<^verbatim>\<open>isinstance\<close> tests has no final
  \<^verbatim>\<open>else\<close>: a node of any other kind leaves the attribute as it is. The \<^verbatim>\<open>step\<close> of a
  slice, the arguments of a call and the name of an attribute are never looked at.
\<close>

fun handle_annotation_basic :: "expr \<Rightarrow> int \<Rightarrow> int" where
  "handle_annotation_basic (Name i) c = c + 1"
| "handle_annotation_basic (Constant v) c = c + 1"
| "handle_annotation_basic (Subscript v s) c =
     handle_annotation_basic s (handle_annotation_basic v c)"
| "handle_annotation_basic (Attribute v a) c = handle_annotation_basic v c"
| "handle_annotation_basic (BinOp l oper r) c =
     handle_annotation_basic r (handle_annotation_basic l c)"
| "handle_annotation_basic (Call f args) c = handle_annotation_basic f c"
| "handle_annotation_basic (Slice lower upper step) c =
     (let c1 = (case lower of None \<Rightarrow> c | Some l \<Rightarrow> handle_annotation_basic l c)
      in (case upper of None \<Rightarrow> c1 | Some u \<Rightarrow> handle_annotation_basic u c1))"
| "handle_annotation_basic (Tuple elts) c = fold handle_annotation_basic elts c"
| "handle_annotation_basic (List elts) c = fold handle_annotation_basic elts c"
| "handle_annotation_basic (UnaryOp oper operand) c = handle_annotation_basic operand c"
| "handle_annotation_basic (BoolOp oper vs) c = c"
| "handle_annotation_basic (Dict ks vs) c = c"
| "handle_annotation_basic (IfExp t b e) c = c"
| "handle_annotation_basic (Lambda b) c = c"
| "handle_annotation_basic (Set elts) c = c"
| "handle_annotation_basic (Compare l cs) c = c"
| "handle_annotation_basic (JoinedStr vs) c = c"
| "handle_annotation_basic (OtherExpr es) c = c"

text \<open>The annotation \<^verbatim>\<open>Optional[Union[str, int]]\<close> as \<^verbatim>\<open>ast.parse\<close> builds it.\<close>

definition optional_union_str_int :: expr where
  "optional_union_str_int =
     Subscript (Name ''Optional'')
       (Subscript (Name ''Union'') (Tuple [Name ''str'', Name ''int'']))"

subsection \<open>The traversal table of the specification\<close>

text \<open>
  The shapes the specification calls well-formed: names, literal constants, subscripts,
  attribute accesses, unions written with the binary or, calls, slices, tuple and list
  literals, unary operations. A tree is built only from them when every node is one.
\<close>

fun well_formed :: "expr \<Rightarrow> bool" where
  "well_formed (Name i) = True"
| "well_formed (Constant v) = True"
| "well_formed (Subscript v s) = (well_formed v \<and> well_formed s)"
| "well_formed (Attribute v a) = well_formed v"
| "well_formed (BinOp l oper r) = (oper = BitOr \<and> well_formed l \<and> well_formed r)"
| "well_formed (Call f args) = (well_formed f \<and> list_all well_formed args)"
| "well_formed (Slice lower upper step) =
     ((case lower of None \<Rightarrow> True | Some l \<Rightarrow> well_formed l) \<and>
      (case upper of None \<Rightarrow> True | Some u \<Rightarrow> well_formed u) \<and>
      (case step of None \<Rightarrow> True | Some s \<Rightarrow> well_formed s))"
| "well_formed (Tuple elts) = list_all well_formed elts"
| "well_formed (List elts) = list_all well_formed elts"
| "well_formed (UnaryOp oper operand) = well_formed operand"
| "well_formed (BoolOp oper vs) = False"
| "well_formed (Dict ks vs) = False"
| "well_formed (IfExp t b e) = False"
| "well_formed (Lambda b) = False"
| "well_formed (Set elts) = False"
| "well_formed (Compare l cs) = False"
| "well_formed (JoinedStr vs) = False"
| "well_formed (OtherExpr es) = False"

text \<open>
  The reference count, written from the rows of the specification's table and not from the
  code: the number of name and literal leaves the rules reach.
\<close>

fun spec_leaf_count :: "expr \<Rightarrow> int" where
  "spec_leaf_count (Name i) = 1"
| "spec_leaf_count (Constant v) = 1"
| "spec_leaf_count (Subscript b a) = spec_leaf_count b + spec_leaf_count a"
| "spec_leaf_count (Attribute v a) = spec_leaf_count v"
| "spec_leaf_count (BinOp l oper r) =
     (if oper = BitOr then spec_leaf_count l + spec_leaf_count r else 0)"
| "spec_leaf_count (Call f args) = spec_leaf_count f"
| "spec_leaf_count (Slice lower upper step) =
     (case lower of None \<Rightarrow> 0 | Some l \<Rightarrow> spec_leaf_count l) +
     (case upper of None \<Rightarrow> 0 | Some u \<Rightarrow> spec_leaf_count u)"
| "spec_leaf_count (Tuple elts) = sum_list (map spec_leaf_count elts)"
| "spec_leaf_count (List elts) = sum_list (map spec_leaf_count elts)"
| "spec_leaf_count (UnaryOp oper operand) = spec_leaf_count operand"
| "spec_leaf_count (BoolOp oper vs) = 0"
| "spec_leaf_count (Dict ks vs) = 0"
| "spec_leaf_count (IfExp t b e) = 0"
| "spec_leaf_count (Lambda b) = 0"
| "spec_leaf_count (Set elts) = 0"
| "spec_leaf_count (Compare l cs) = 0"
| "spec_leaf_count (JoinedStr vs) = 0"
| "spec_leaf_count (OtherExpr es) = 0"

text \<open>
  A tree in whose traversed part no sequence literal is empty and every slice has its lower
  or its upper bound.
\<close>

fun no_empty_shape :: "expr \<Rightarrow> bool" where
  "no_empty_shape (Subscript v s) = (no_empty_shape v \<and> no_empty_shape s)"
| "no_empty_shape (Attribute v a) = no_empty_shape v"
| "no_empty_shape (BinOp l oper r) = (no_empty_shape l \<and> no_empty_shape r)"
| "no_empty_shape (Call f args) = no_empty_shape f"
| "no_empty_shape (Slice lower upper step) =
     ((lower \<noteq> None \<or> upper \<noteq> None) \<and>
      (case lower of None \<Rightarrow> True | Some l \<Rightarrow> no_empty_shape l) \<and>
      (case upper of None \<Rightarrow> True | Some u \<Rightarrow> no_empty_shape u))"
| "no_empty_shape (Tuple elts) = (elts \<noteq> [] \<and> list_all no_empty_shape elts)"
| "no_empty_shape (List elts) = (elts \<noteq> [] \<and> list_all no_empty_shape elts)"
| "no_empty_shape (UnaryOp oper operand) = no_empty_shape operand"
| "no_empty_shape e = True"

text \<open>
  The shapes the specification calls anomalous, and every node kind the analyzer does not
  know.
\<close>

fun anomalous :: "expr \<Rightarrow> bool" where
  "anomalous (BoolOp oper vs) = True"
| "anomalous (Dict ks vs) = True"
| "anomalous (IfExp t b e) = True"
| "anomalous (Lambda b) = True"
| "anomalous (Set elts) = True"
| "anomalous (Compare l cs) = True"
| "anomalous (JoinedStr vs) = True"
| "anomalous (OtherExpr es) = True"
| "anomalous e = False"

section \<open>The base type of an annotation\<close>

text \<open>
  \<^verbatim>\<open>str.split(sep)\<close> for a separator of one character: the pieces between the
  occurrences of the separator, never an empty list.
\<close>

fun str_split :: "char \<Rightarrow> string \<Rightarrow> string list" where
  "str_split sep [] = [[]]"
| "str_split sep (c # cs) =
     (if c = sep then [] # str_split sep cs
      else (case str_split sep cs of
              [] \<Rightarrow> [[c]]
            | p # ps \<Rightarrow> (c # p) # ps))"

definition python_types :: "string list" where
  "python_types =
     [''None'', ''bool'', ''int'', ''float'', ''complex'', ''str'',
      ''bytes'', ''bytearray'', ''memoryview'', ''range'',
      ''tuple'', ''list'', ''set'', ''frozenset'', ''dict'',
      ''ellipsis'', ''...'', ''type'', ''object'',
      ''NoneType'', ''Any'', ''Union'', ''Optional'', ''Callable'',
      ''TypeVar'', ''Generic'', ''ClassVar'', ''Final'',
      ''Literal'', ''Annotated'', ''TypedDict'', ''Protocol'',
      ''runtime_checkable'', ''AbstractSet'']"

text \<open>The string before the first \<^verbatim>\<open>[\<close>, \<^verbatim>\<open>,\<close> or space, as the code computes it.\<close>

definition head_token :: "string \<Rightarrow> string" where
  "head_token unparsed_annotation =
     hd (str_split CHR '' ''
       (hd (str_split CHR '',''
         (hd (str_split CHR ''['' unparsed_annotation)))))"

text \<open>
  \<^verbatim>\<open>get_base_type\<close> takes an \<^verbatim>\<open>Optional[str]\<close>: \<^verbatim>\<open>None\<close> and the empty string are both
  falsy and give the empty string.
\<close>

fun get_base_type :: "string option \<Rightarrow> string" where
  "get_base_type None = []"
| "get_base_type (Some unparsed_annotation) =
     (if unparsed_annotation = [] then []
      else (let base_type = head_token unparsed_annotation in
            if base_type \<in> set python_types
            then (if base_type = ''...'' then ''ellipsis'' else base_type)
            else ''user_defined''))"

section \<open>Records of the analyzer\<close>

datatype FuncVarType = FUNCTION_ARG | FUNCTION_RETURN | VARIABLE

record Annotation =
  a_repo_id :: int
  a_relative_path :: string
  func_var_name :: string
  a_lineno :: int
  annot_name :: string
  func_var_type :: FuncVarType
  base_type :: string
  entire_annotation :: string
  count :: int

record FuncVar =
  repo_id :: int
  relative_path :: string
  name :: string
  lineno :: int
  num_var :: int
  num_var_annotated :: int

definition FuncVar_init :: "int \<Rightarrow> string \<Rightarrow> string \<Rightarrow> int \<Rightarrow> FuncVar" where
  "FuncVar_init rid rel_p nm ln =
     \<lparr>repo_id = rid, relative_path = rel_p, name = nm, lineno = ln,
      num_var = 0, num_var_annotated = 0\<rparr>"

definition increase_num_var :: "FuncVar \<Rightarrow> FuncVar" where
  "increase_num_var fv = fv\<lparr>num_var := num_var fv + 1\<rparr>"

definition increase_num_var_annotated :: "FuncVar \<Rightarrow> FuncVar" where
  "increase_num_var_annotated fv = fv\<lparr>num_var_annotated := num_var_annotated fv + 1\<rparr>"

text \<open>
  The attributes of \<^verbatim>\<open>AnnotationAnalyzer\<close> that the traversal reads and writes (the
  logger and the progress figure are left out).
\<close>

record analyzer =
  self_repo_id :: int
  rel_path :: string
  total_annotations :: int
  last_count :: int
  funcs_and_vars :: "FuncVar list"
  annotations :: "Annotation list"
  unannotated_names :: "string list"

definition AnnotationAnalyzer_init :: "int \<Rightarrow> string \<Rightarrow> analyzer" where
  "AnnotationAnalyzer_init rid rel_p =
     \<lparr>self_repo_id = rid, rel_path = rel_p, total_annotations = 0, last_count = 0,
      funcs_and_vars = [], annotations = [], unannotated_names = []\<rparr>"

section \<open>Handling one annotation\<close>

text \<open>
  \<^verbatim>\<open>completely_handle_annotation\<close>, statement by statement: the counter goes up, the
  annotation is counted into \<^verbatim>\<open>last_count\<close>, \<^verbatim>\<open>last_count\<close> is set to 0, and the record
  is built with \<^verbatim>\<open>count=self.last_count\<close>. \<^verbatim>\<open>ast.unparse\<close> belongs to the Python library
  and is the parameter \<open>unparse\<close>.
\<close>

definition completely_handle_annotation ::
  "(expr \<Rightarrow> string) \<Rightarrow> expr \<Rightarrow> string \<Rightarrow> int \<Rightarrow> FuncVarType \<Rightarrow> string \<Rightarrow>
   analyzer \<Rightarrow> analyzer" where
  "completely_handle_annotation unparse annot fv_name ln fvt a_name st =
     (let st1 = st\<lparr>total_annotations := total_annotations st + 1\<rparr>;
          st2 = st1\<lparr>last_count := handle_annotation_basic annot (last_count st1)\<rparr>;
          st3 = st2\<lparr>last_count := 0\<rparr>;
          a = \<lparr>a_repo_id = self_repo_id st3, a_relative_path = rel_path st3,
               func_var_name = fv_name, a_lineno = ln, annot_name = a_name,
               func_var_type = fvt,
               base_type = get_base_type (Some (unparse annot)),
               entire_annotation = unparse annot,
               count = last_count st3\<rparr>
      in st3\<lparr>annotations := annotations st3 @ [a]\<rparr>)"

section \<open>The declaration walker\<close>

text \<open>
  Statements: the three kinds the analyzer overrides \<^verbatim>\<open>visit_\<close> for, \<^verbatim>\<open>Return\<close> (which
  \<^verbatim>\<open>contains_return\<close> looks for), \<^verbatim>\<open>If\<close>, and \<open>OtherStmt\<close> for every other kind with its
  child statements in field order. Of a function's arguments only \<^verbatim>\<open>node.args.args\<close> is
  read. Expressions hold no statements, so \<^verbatim>\<open>generic_visit\<close> changes nothing below an
  expression.
\<close>

record ast_arg =
  arg :: string
  annotation :: "expr option"

datatype stmt =
    FunctionDef string int "ast_arg list" "expr option" "stmt list"
  | AnnAssign expr expr int
  | Assign "expr list" int
  | Return "expr option"
  | If expr "stmt list" "stmt list"
  | OtherStmt "stmt list"

text \<open>The test of the \<^verbatim>\<open>if\<close> inside the loop of \<^verbatim>\<open>contains_return\<close>.\<close>

fun returns_a_value :: "stmt \<Rightarrow> bool" where
  "returns_a_value (Return None) = False"
| "returns_a_value (Return (Some (Constant CNone))) = False"
| "returns_a_value (Return (Some v)) = True"
| "returns_a_value statement = False"

fun contains_return :: "stmt list \<Rightarrow> bool" where
  "contains_return [] = False"
| "contains_return (statement # body) =
     (if returns_a_value statement then True else contains_return body)"

fun get_var_name :: "expr \<Rightarrow> string" where
  "get_var_name (Name i) = i"
| "get_var_name (Attribute v a) = a"
| "get_var_name (Subscript v s) = get_var_name v"
| "get_var_name element = []"

text \<open>The loop over \<^verbatim>\<open>node.args.args\<close> at the start of \<^verbatim>\<open>visit_FunctionDef\<close>.\<close>

fun handle_args ::
  "(expr \<Rightarrow> string) \<Rightarrow> string \<Rightarrow> int \<Rightarrow> ast_arg list \<Rightarrow> FuncVar \<times> analyzer \<Rightarrow>
   FuncVar \<times> analyzer" where
  "handle_args unparse func_name func_lineno [] (func, st) = (func, st)"
| "handle_args unparse func_name func_lineno (a # as) (func, st) =
     (case annotation a of
        None \<Rightarrow> handle_args unparse func_name func_lineno as (increase_num_var func, st)
      | Some ann \<Rightarrow>
          handle_args unparse func_name func_lineno as
            (increase_num_var_annotated (increase_num_var func),
             completely_handle_annotation unparse ann func_name func_lineno
               FUNCTION_ARG (arg a) st))"

text \<open>
  \<^verbatim>\<open>visit_FunctionDef\<close> up to and including \<^verbatim>\<open>self.funcs_and_vars.append(func)\<close>; the
  closing \<^verbatim>\<open>generic_visit\<close> is in \<open>visit\<close> below. A partially annotated function has the
  name of every argument of \<^verbatim>\<open>node.args.args\<close> appended to \<^verbatim>\<open>unannotated_names\<close>.
\<close>

definition visit_FunctionDef_head ::
  "(expr \<Rightarrow> string) \<Rightarrow> string \<Rightarrow> int \<Rightarrow> ast_arg list \<Rightarrow> expr option \<Rightarrow> stmt list \<Rightarrow>
   analyzer \<Rightarrow> analyzer" where
  "visit_FunctionDef_head unparse func_name func_lineno args returns body st =
     (let (func1, st1) =
            handle_args unparse func_name func_lineno args
              (FuncVar_init (self_repo_id st) (rel_path st) func_name func_lineno, st);
          (func2, st2) =
            (case returns of
               Some r \<Rightarrow>
                 (increase_num_var_annotated (increase_num_var func1),
                  completely_handle_annotation unparse r func_name func_lineno
                    FUNCTION_RETURN [] st1)
             | None \<Rightarrow>
                 if contains_return body then (increase_num_var func1, st1)
                 else (func1, st1));
          st3 =
            (if 0 < num_var_annotated func2 \<and> num_var_annotated func2 < num_var func2
             then st2\<lparr>unannotated_names := unannotated_names st2 @ map arg args\<rparr>
             else st2)
      in st3\<lparr>funcs_and_vars := funcs_and_vars st3 @ [func2]\<rparr>)"

definition visit_AnnAssign ::
  "(expr \<Rightarrow> string) \<Rightarrow> expr \<Rightarrow> expr \<Rightarrow> int \<Rightarrow> analyzer \<Rightarrow> analyzer" where
  "visit_AnnAssign unparse target ann ln st =
     (let var_name = get_var_name target;
          var = increase_num_var_annotated
                  (increase_num_var (FuncVar_init (self_repo_id st) (rel_path st) var_name ln));
          st1 = st\<lparr>funcs_and_vars := funcs_and_vars st @ [var]\<rparr>
      in completely_handle_annotation unparse ann var_name ln VARIABLE var_name st1)"

text \<open>One unannotated variable of \<^verbatim>\<open>visit_Assign\<close>.\<close>

definition plain_var :: "expr \<Rightarrow> int \<Rightarrow> analyzer \<Rightarrow> analyzer" where
  "plain_var element ln st =
     st\<lparr>funcs_and_vars := funcs_and_vars st @
          [increase_num_var
             (FuncVar_init (self_repo_id st) (rel_path st) (get_var_name element) ln)]\<rparr>"

fun assign_target :: "int \<Rightarrow> expr \<Rightarrow> analyzer \<Rightarrow> analyzer" where
  "assign_target ln (Tuple elts) st = fold (\<lambda>element. plain_var element ln) elts st"
| "assign_target ln target st = plain_var target ln st"

definition visit_Assign :: "expr list \<Rightarrow> int \<Rightarrow> analyzer \<Rightarrow> analyzer" where
  "visit_Assign targets ln st = fold (assign_target ln) targets st"

text \<open>
  \<^verbatim>\<open>NodeVisitor.visit\<close> on a statement. \<^verbatim>\<open>visit_AnnAssign\<close> does not call
  \<^verbatim>\<open>generic_visit\<close>; \<^verbatim>\<open>visit_Assign\<close> does, over expressions only.
\<close>

fun visit :: "(expr \<Rightarrow> string) \<Rightarrow> stmt \<Rightarrow> analyzer \<Rightarrow> analyzer" where
  "visit unparse (FunctionDef func_name func_lineno args returns body) st =
     fold (visit unparse) body
       (visit_FunctionDef_head unparse func_name func_lineno args returns body st)"
| "visit unparse (AnnAssign target ann ln) st = visit_AnnAssign unparse target ann ln st"
| "visit unparse (Assign targets ln) st = visit_Assign targets ln st"
| "visit unparse (Return v) st = st"
| "visit unparse (If test body orelse) st =
     fold (visit unparse) orelse (fold (visit unparse) body st)"
| "visit unparse (OtherStmt children) st = fold (visit unparse) children st"

text \<open>
  \<^verbatim>\<open>AnnotationAnalyzer(id_repo, relative_file_path).visit(node)\<close> for the module \<^verbatim>\<open>node\<close>
  with the statements \<open>body\<close>, as \<^verbatim>\<open>analyze_repository\<close> calls it.
\<close>

definition analyze_module :: "(expr \<Rightarrow> string) \<Rightarrow> int \<Rightarrow> string \<Rightarrow> stmt list \<Rightarrow> analyzer" where
  "analyze_module unparse id_repo relative_file_path body =
     fold (visit unparse) body (AnnotationAnalyzer_init id_repo relative_file_path)"

text \<open>The two sums of the block \<^verbatim>\<open>CHECKING CALCULATIONS\<close> of \<^verbatim>\<open>analyze_repository\<close>.\<close>

definition total_annotated :: "analyzer \<Rightarrow> int" where
  "total_annotated st = int (length (annotations st))"

definition total_func_vars_annotated :: "analyzer \<Rightarrow> int" where
  "total_func_vars_annotated st =
     fold (\<lambda>func_var total. total + num_var_annotated func_var) (funcs_and_vars st) 0"

section \<open>Invariants of the traversal\<close>

text \<open>
  A \<^verbatim>\<open>FuncVar\<close> is in order when its annotated count lies between 0 and its total.
\<close>

definition site_ok :: "FuncVar \<Rightarrow> bool" where
  "site_ok fv = (0 \<le> num_var_annotated fv \<and> num_var_annotated fv \<le> num_var fv)"

text \<open>
  The state between two steps of the traversal: the counter equals the number of records,
  the annotated counts of the finished sites plus those of the function under way
  (\<open>pending\<close>) equal it too, and every finished site is in order.
\<close>

definition walker_inv :: "int \<Rightarrow> analyzer \<Rightarrow> bool" where
  "walker_inv pending st =
     (total_annotations st = int (length (annotations st)) \<and>
      sum_list (map num_var_annotated (funcs_and_vars st)) + pending =
        int (length (annotations st)) \<and>
      list_all site_ok (funcs_and_vars st))"

section \<open>Sample modules\<close>

text \<open>The module \<^verbatim>\<open>x: int\<close>.\<close>

definition module_x_int :: "stmt list" where
  "module_x_int = [AnnAssign (Name ''x'') (Name ''int'') 1]"

text \<open>
  The module
  \<^verbatim>\<open>def f(x):
      if x:
          return 1\<close>
\<close>

definition module_nested_return :: "stmt list" where
  "module_nested_return =
     [FunctionDef ''f'' 1 [\<lparr>arg = ''x'', annotation = None\<rparr>] None
        [If (Name ''x'') [Return (Some (Constant (CInt 1)))] []]]"

text \<open>
  The module
  \<^verbatim>\<open>def f(x):
      return 1\<close>
\<close>

definition module_top_return :: "stmt list" where
  "module_top_return =
     [FunctionDef ''f'' 1 [\<lparr>arg = ''x'', annotation = None\<rparr>] None
        [Return (Some (Constant (CInt 1)))]]"

text \<open>
  The module
  \<^verbatim>\<open>def f(a: int, b):
      pass\<close>
\<close>

definition module_partial :: "stmt list" where
  "module_partial =
     [FunctionDef ''f'' 1
        [\<lparr>arg = ''a'', annotation = Some (Name ''int'')\<rparr>,
         \<lparr>arg = ''b'', annotation = None\<rparr>]
        None [OtherStmt []]]"

text \<open>
  The module
  \<^verbatim>\<open>def g(a: int, b) -> str:
      c, d = a, b
      e: int = 1
      return b\<close>
\<close>

definition module_mixed :: "stmt list" where
  "module_mixed =
     [FunctionDef ''g'' 1
        [\<lparr>arg = ''a'', annotation = Some (Name ''int'')\<rparr>,
         \<lparr>arg = ''b'', annotation = None\<rparr>]
        (Some (Name ''str''))
        [Assign [Tuple [Name ''c'', Name ''d'']] 2,
         AnnAssign (Name ''e'') (Name ''int'') 3,
         Return (Some (Name ''b''))]]"

text \<open>The annotation \<^verbatim>\<open>dict[str, int | None]\<close>.\<close>

definition dict_str_int_or_none :: expr where
  "dict_str_int_or_none =
     Subscript (Name ''dict'')
       (Tuple [Name ''str'', BinOp (Name ''int'') BitOr (Constant CNone)])"

section \<open>The counting function and its accumulator\<close>

lemma fold_handle_shift:
  assumes "\<And>e c. e \<in> set es \<Longrightarrow> handle_annotation_basic e c = c + handle_annotation_basic e 0"
  shows "fold handle_annotation_basic es c = c + sum_list (map (\<lambda>e. handle_annotation_basic e 0) es)"
  using assms
proof (induction es arbitrary: c)
  case Nil
  then show ?case by simp
next
  case (Cons e es)
  have a: "handle_annotation_basic e c = c + handle_annotation_basic e 0"
    by (rule Cons.prems) simp
  have b: "fold handle_annotation_basic es (handle_annotation_basic e c) =
      handle_annotation_basic e c + sum_list (map (\<lambda>e. handle_annotation_basic e 0) es)"
    by (rule Cons.IH) (rule Cons.prems, simp)
  have "fold handle_annotation_basic (e # es) c =
      fold handle_annotation_basic es (handle_annotation_basic e c)" by simp
  moreover have "sum_list (map (\<lambda>e. handle_annotation_basic e 0) (e # es)) =
      handle_annotation_basic e 0 + sum_list (map (\<lambda>e. handle_annotation_basic e 0) es)"
    by simp
  ultimately show ?case using a b by linarith
qed

lemma handle_annotation_basic_shift:
  "handle_annotation_basic t c = c + handle_annotation_basic t 0"
proof (induction t arbitrary: c)
  case (Subscript v s)
  have a: "handle_annotation_basic v c = c + handle_annotation_basic v 0"
    by (rule Subscript.IH(1))
  have b: "handle_annotation_basic s (handle_annotation_basic v c) =
      handle_annotation_basic v c + handle_annotation_basic s 0"
    by (rule Subscript.IH(2))
  have d: "handle_annotation_basic s (handle_annotation_basic v 0) =
      handle_annotation_basic v 0 + handle_annotation_basic s 0"
    by (rule Subscript.IH(2))
  show ?case unfolding handle_annotation_basic.simps using a b d by linarith
next
  case (BinOp l oper r)
  have a: "handle_annotation_basic l c = c + handle_annotation_basic l 0"
    by (rule BinOp.IH(1))
  have b: "handle_annotation_basic r (handle_annotation_basic l c) =
      handle_annotation_basic l c + handle_annotation_basic r 0"
    by (rule BinOp.IH(2))
  have d: "handle_annotation_basic r (handle_annotation_basic l 0) =
      handle_annotation_basic l 0 + handle_annotation_basic r 0"
    by (rule BinOp.IH(2))
  show ?case unfolding handle_annotation_basic.simps using a b d by linarith
next
  case (Slice lower upper step)
  show ?case
  proof (cases lower)
    case None
    note lo = this
    show ?thesis
    proof (cases upper)
      case None
      with lo show ?thesis by simp
    next
      case (Some u)
      have "handle_annotation_basic u c = c + handle_annotation_basic u 0"
        by (rule Slice.IH(2)) (simp add: Some)
      with lo Some show ?thesis by simp
    qed
  next
    case (Some l)
    note lo = this
    have a: "handle_annotation_basic l c = c + handle_annotation_basic l 0"
      by (rule Slice.IH(1)) (simp add: lo)
    show ?thesis
    proof (cases upper)
      case None
      with lo a show ?thesis by simp
    next
      case (Some u)
      have b: "handle_annotation_basic u (handle_annotation_basic l c) =
          handle_annotation_basic l c + handle_annotation_basic u 0"
        by (rule Slice.IH(2)) (simp add: Some)
      have d: "handle_annotation_basic u (handle_annotation_basic l 0) =
          handle_annotation_basic l 0 + handle_annotation_basic u 0"
        by (rule Slice.IH(2)) (simp add: Some)
      have "handle_annotation_basic (Slice lower upper step) c =
          handle_annotation_basic u (handle_annotation_basic l c)" for c
        by (simp add: lo Some)
      then show ?thesis using a b d by simp
    qed
  qed
next
  case (Tuple elts)
  have "fold handle_annotation_basic elts c =
      c + sum_list (map (\<lambda>e. handle_annotation_basic e 0) elts)" for c
    by (rule fold_handle_shift) (rule Tuple.IH)
  from this [of c] this [of 0] show ?case by simp
next
  case (List elts)
  have "fold handle_annotation_basic elts c =
      c + sum_list (map (\<lambda>e. handle_annotation_basic e 0) elts)" for c
    by (rule fold_handle_shift) (rule List.IH)
  from this [of c] this [of 0] show ?case by simp
next
  case (Attribute v a)
  show ?case unfolding handle_annotation_basic.simps by (rule Attribute.IH)
next
  case (Call f args)
  show ?case unfolding handle_annotation_basic.simps by (rule Call.IH(1))
next
  case (UnaryOp oper operand)
  show ?case unfolding handle_annotation_basic.simps by (rule UnaryOp.IH)
qed simp_all


lemma fold_handle_sum:
  "fold handle_annotation_basic es c = c + sum_list (map (\<lambda>e. handle_annotation_basic e 0) es)"
  by (rule fold_handle_shift) (rule handle_annotation_basic_shift)

lemma handle_two:
  "handle_annotation_basic s (handle_annotation_basic v 0) =
     handle_annotation_basic v 0 + handle_annotation_basic s 0"
  by (rule handle_annotation_basic_shift)

lemma handle_slice:
  "handle_annotation_basic (Slice lower upper step) 0 =
     (case lower of None \<Rightarrow> 0 | Some l \<Rightarrow> handle_annotation_basic l 0) +
     (case upper of None \<Rightarrow> 0 | Some u \<Rightarrow> handle_annotation_basic u 0)"
  by (cases lower; cases upper) (simp_all add: handle_two)

lemma handle_eq_spec:
  "well_formed t \<Longrightarrow> handle_annotation_basic t 0 = spec_leaf_count t"
proof (induction t)
  case (Subscript v s)
  then show ?case unfolding handle_annotation_basic.simps handle_two by simp
next
  case (BinOp l oper r)
  then show ?case unfolding handle_annotation_basic.simps handle_two by simp
next
  case (Slice lower upper step)
  then show ?case
    unfolding handle_slice by (cases lower; cases upper) simp_all
next
  case (Tuple elts)
  have "sum_list (map (\<lambda>e. handle_annotation_basic e 0) elts) =
      sum_list (map spec_leaf_count elts)"
    by (rule arg_cong [where f = sum_list], rule map_cong)
      (use Tuple in \<open>auto simp: list_all_iff\<close>)
  then show ?case by (simp add: fold_handle_sum)
next
  case (List elts)
  have "sum_list (map (\<lambda>e. handle_annotation_basic e 0) elts) =
      sum_list (map spec_leaf_count elts)"
    by (rule arg_cong [where f = sum_list], rule map_cong)
      (use List in \<open>auto simp: list_all_iff\<close>)
  then show ?case by (simp add: fold_handle_sum)
qed simp_all

lemma handle_nonneg: "0 \<le> handle_annotation_basic t 0"
proof (induction t)
  case (Subscript v s)
  then show ?case unfolding handle_annotation_basic.simps handle_two by simp
next
  case (BinOp l oper r)
  then show ?case unfolding handle_annotation_basic.simps handle_two by simp
next
  case (Slice lower upper step)
  then show ?case
    unfolding handle_slice by (cases lower; cases upper) simp_all
next
  case (Tuple elts)
  have "0 \<le> sum_list (map (\<lambda>e. handle_annotation_basic e 0) elts)"
    by (rule sum_list_nonneg) (use Tuple in auto)
  then show ?case by (simp add: fold_handle_sum)
next
  case (List elts)
  have "0 \<le> sum_list (map (\<lambda>e. handle_annotation_basic e 0) elts)"
    by (rule sum_list_nonneg) (use List in auto)
  then show ?case by (simp add: fold_handle_sum)
qed simp_all

lemma sum_list_pos_int:
  fixes xs :: "int list"
  assumes "xs \<noteq> []" "\<And>x. x \<in> set xs \<Longrightarrow> 0 < x"
  shows "0 < sum_list xs"
  using assms
proof (induction xs)
  case Nil
  then show ?case by simp
next
  case (Cons x xs)
  have "0 < x" using Cons.prems(2) by simp
  moreover have "0 \<le> sum_list xs"
    by (rule sum_list_nonneg) (use Cons.prems(2) in \<open>simp add: less_imp_le\<close>)
  ultimately show ?case by simp
qed

lemma handle_pos:
  "well_formed t \<Longrightarrow> no_empty_shape t \<Longrightarrow> 0 < handle_annotation_basic t 0"
proof (induction t)
  case (Subscript v s)
  then show ?case unfolding handle_annotation_basic.simps handle_two by (simp add: add_pos_pos)
next
  case (BinOp l oper r)
  then show ?case unfolding handle_annotation_basic.simps handle_two by (simp add: add_pos_pos)
next
  case (Slice lower upper step)
  then show ?case
    unfolding handle_slice by (cases lower; cases upper) (simp_all add: add_pos_pos)
next
  case (Tuple elts)
  then have "0 < sum_list (map (\<lambda>e. handle_annotation_basic e 0) elts)"
    by (intro sum_list_pos_int) (auto simp: list_all_iff)
  then show ?case by (simp add: fold_handle_sum)
next
  case (List elts)
  then have "0 < sum_list (map (\<lambda>e. handle_annotation_basic e 0) elts)"
    by (intro sum_list_pos_int) (auto simp: list_all_iff)
  then show ?case by (simp add: fold_handle_sum)
qed simp_all

lemma str_split_nonempty: "str_split sep s \<noteq> []"
  by (induction s) (auto split: list.splits)

lemma hd_str_split: "hd (str_split sep s) = takeWhile (\<lambda>c. c \<noteq> sep) s"
proof (induction s)
  case Nil
  show ?case by simp
next
  case (Cons c cs)
  then show ?case using str_split_nonempty [of sep cs]
    by (cases "str_split sep cs") auto
qed

lemma takeWhile_twice:
  "takeWhile P (takeWhile Q xs) = takeWhile (\<lambda>x. P x \<and> Q x) xs"
  by (induction xs) auto

lemma head_token_takeWhile:
  "head_token s = takeWhile (\<lambda>c. c \<noteq> CHR ''['' \<and> c \<noteq> CHR '','' \<and> c \<noteq> CHR '' '') s"
  unfolding head_token_def hd_str_split takeWhile_twice
  by (rule arg_cong [where f = "\<lambda>P. takeWhile P s"]) auto


section \<open>The traversal keeps its invariant\<close>

lemma cha_fields [simp]:
  "total_annotations (completely_handle_annotation u a n l t an st) = total_annotations st + 1"
  "length (annotations (completely_handle_annotation u a n l t an st)) =
     Suc (length (annotations st))"
  "funcs_and_vars (completely_handle_annotation u a n l t an st) = funcs_and_vars st"
  "unannotated_names (completely_handle_annotation u a n l t an st) = unannotated_names st"
  "last_count (completely_handle_annotation u a n l t an st) = 0"
  "self_repo_id (completely_handle_annotation u a n l t an st) = self_repo_id st"
  "rel_path (completely_handle_annotation u a n l t an st) = rel_path st"
  by (simp_all add: completely_handle_annotation_def Let_def)

lemma cha_inv:
  "walker_inv p st \<Longrightarrow> walker_inv (p + 1) (completely_handle_annotation u a n l t an st)"
  by (simp add: walker_inv_def)

lemma handle_args_inv:
  "handle_args u n l as (func, st) = (func', st') \<Longrightarrow>
   walker_inv (num_var_annotated func) st \<Longrightarrow> site_ok func \<Longrightarrow>
   walker_inv (num_var_annotated func') st' \<and> site_ok func'"
proof (induction as arbitrary: func st)
  case Nil
  then show ?case by simp
next
  case (Cons a as)
  show ?case
  proof (cases "annotation a")
    case None
    have "walker_inv (num_var_annotated (increase_num_var func)) st"
      using Cons.prems(2) by (simp add: increase_num_var_def)
    moreover have "site_ok (increase_num_var func)"
      using Cons.prems(3) by (simp add: site_ok_def increase_num_var_def)
    moreover have "handle_args u n l as (increase_num_var func, st) = (func', st')"
      using Cons.prems(1) None by simp
    ultimately show ?thesis by (rule Cons.IH [rotated -1, rotated -1])
  next
    case (Some ann)
    let ?f = "increase_num_var_annotated (increase_num_var func)"
    let ?s = "completely_handle_annotation u ann n l FUNCTION_ARG (arg a) st"
    have "walker_inv (num_var_annotated ?f) ?s"
      using cha_inv [OF Cons.prems(2)]
      by (simp add: increase_num_var_def increase_num_var_annotated_def)
    moreover have "site_ok ?f"
      using Cons.prems(3)
      by (simp add: site_ok_def increase_num_var_def increase_num_var_annotated_def)
    moreover have "handle_args u n l as (?f, ?s) = (func', st')"
      using Cons.prems(1) Some by simp
    ultimately show ?thesis by (rule Cons.IH [rotated -1, rotated -1])
  qed
qed

lemma append_site_inv:
  "walker_inv (num_var_annotated func) st \<Longrightarrow> site_ok func \<Longrightarrow>
   walker_inv 0 (st\<lparr>funcs_and_vars := funcs_and_vars st @ [func]\<rparr>)"
  by (simp add: walker_inv_def)

lemma names_inv:
  "walker_inv p st \<Longrightarrow> walker_inv p (st\<lparr>unannotated_names := ns\<rparr>)"
  by (simp add: walker_inv_def)

lemma visit_FunctionDef_head_inv:
  assumes "walker_inv 0 st"
  shows "walker_inv 0 (visit_FunctionDef_head u n l as r body st)"
proof -
  let ?f0 = "FuncVar_init (self_repo_id st) (rel_path st) n l"
  obtain func1 st1 where h: "handle_args u n l as (?f0, st) = (func1, st1)"
    by (cases "handle_args u n l as (?f0, st)")
  have "walker_inv (num_var_annotated ?f0) st" "site_ok ?f0"
    using assms by (simp_all add: FuncVar_init_def site_ok_def)
  with h have a: "walker_inv (num_var_annotated func1) st1" "site_ok func1"
    using handle_args_inv by blast+
  obtain func2 st2 where r:
    "(case r of
        Some r \<Rightarrow> (increase_num_var_annotated (increase_num_var func1),
                   completely_handle_annotation u r n l FUNCTION_RETURN [] st1)
      | None \<Rightarrow> if contains_return body then (increase_num_var func1, st1)
                else (func1, st1)) = (func2, st2)"
    by (cases "(case r of
        Some r \<Rightarrow> (increase_num_var_annotated (increase_num_var func1),
                   completely_handle_annotation u r n l FUNCTION_RETURN [] st1)
      | None \<Rightarrow> if contains_return body then (increase_num_var func1, st1)
                else (func1, st1))")
  have b: "walker_inv (num_var_annotated func2) st2 \<and> site_ok func2"
  proof (cases r)
    case None
    with r a show ?thesis
      by (auto simp: increase_num_var_def site_ok_def split: if_splits)
  next
    case (Some x)
    with r a cha_inv [OF a(1), of u x n l FUNCTION_RETURN "[]"] show ?thesis
      by (auto simp: increase_num_var_def increase_num_var_annotated_def site_ok_def)
  qed
  show ?thesis
    unfolding visit_FunctionDef_head_def Let_def h r prod.case
    using b by (simp add: walker_inv_def)
qed

lemma visit_AnnAssign_inv:
  assumes "walker_inv 0 st"
  shows "walker_inv 0 (visit_AnnAssign u target ann l st)"
  using assms
  by (simp add: visit_AnnAssign_def Let_def walker_inv_def site_ok_def
      increase_num_var_def increase_num_var_annotated_def FuncVar_init_def)

lemma plain_var_inv:
  "walker_inv 0 st \<Longrightarrow> walker_inv 0 (plain_var e l st)"
  by (simp add: plain_var_def walker_inv_def site_ok_def increase_num_var_def FuncVar_init_def)

lemma fold_inv:
  assumes "\<And>x st. x \<in> set xs \<Longrightarrow> P st \<Longrightarrow> P (f x st)" "P st"
  shows "P (fold f xs st)"
  using assms by (induction xs arbitrary: st) auto

lemma assign_target_inv:
  "walker_inv 0 st \<Longrightarrow> walker_inv 0 (assign_target l target st)"
  by (cases target) (auto intro: fold_inv [where P = "walker_inv 0"] plain_var_inv)

lemma visit_Assign_inv:
  "walker_inv 0 st \<Longrightarrow> walker_inv 0 (visit_Assign targets l st)"
  unfolding visit_Assign_def
  by (rule fold_inv [where P = "walker_inv 0"]) (auto intro: assign_target_inv)

lemma visit_inv:
  "walker_inv 0 st \<Longrightarrow> walker_inv 0 (visit u s st)"
proof (induction u s st rule: visit.induct)
  case (1 u n l as r body st)
  show ?case
    unfolding visit.simps
    by (rule fold_inv [where P = "walker_inv 0"])
      (use 1 in \<open>auto intro: visit_FunctionDef_head_inv\<close>)
next
  case (2 u target ann l st)
  then show ?case by (simp add: visit_AnnAssign_inv)
next
  case (3 u targets l st)
  then show ?case by (simp add: visit_Assign_inv)
next
  case (4 u v st)
  then show ?case by simp
next
  case (5 u test body orelse st)
  have "walker_inv 0 (fold (visit u) body st)"
    by (rule fold_inv [where P = "walker_inv 0"]) (use 5 in auto)
  then show ?case
    unfolding visit.simps
    by (intro fold_inv [where P = "walker_inv 0"]) (use 5 in auto)
next
  case (6 u children st)
  show ?case
    unfolding visit.simps
    by (rule fold_inv [where P = "walker_inv 0"]) (use 6 in auto)
qed

lemma analyze_module_inv: "walker_inv 0 (analyze_module u rid p body)"
proof -
  have init: "walker_inv 0 (AnnotationAnalyzer_init rid p)"
    by (simp add: walker_inv_def AnnotationAnalyzer_init_def)
  show ?thesis
    unfolding analyze_module_def
    by (rule fold_inv [where P = "walker_inv 0"]) (rule visit_inv, assumption, rule init)
qed

lemma fold_total:
  "fold (\<lambda>fv (t::int). t + f fv) xs a = a + sum_list (map f xs)"
  by (induction xs arbitrary: a) auto

lemma total_func_vars_annotated_sum:
  "total_func_vars_annotated st = sum_list (map num_var_annotated (funcs_and_vars st))"
  by (simp add: total_func_vars_annotated_def fold_total)


section \<open>The return slot of an unannotated function\<close>

lemma contains_return_iff:
  "contains_return body = list_ex returns_a_value body"
  by (induction body) auto

lemma handle_args_num_var:
  "handle_args u n l as (func, st) = (func', st') \<Longrightarrow>
   num_var func' = num_var func + int (length as)"
proof (induction as arbitrary: func st)
  case Nil
  then show ?case by simp
next
  case (Cons a as)
  show ?case
  proof (cases "annotation a")
    case None
    then have "handle_args u n l as (increase_num_var func, st) = (func', st')"
      using Cons.prems by simp
    from Cons.IH [OF this] show ?thesis by (simp add: increase_num_var_def)
  next
    case (Some ann)
    then have "handle_args u n l as
        (increase_num_var_annotated (increase_num_var func),
         completely_handle_annotation u ann n l FUNCTION_ARG (arg a) st) = (func', st')"
      using Cons.prems by simp
    from Cons.IH [OF this] show ?thesis
      by (simp add: increase_num_var_def increase_num_var_annotated_def)
  qed
qed

text \<open>
  Without a return annotation, the site of a function counts its arguments, and one more
  exactly when a statement directly in the body returns a value.
\<close>

lemma unannotated_return_slot:
  "num_var (last (funcs_and_vars (visit_FunctionDef_head u n l as None body st))) =
     int (length as) + (if list_ex returns_a_value body then 1 else 0)"
proof -
  let ?f0 = "FuncVar_init (self_repo_id st) (rel_path st) n l"
  obtain func1 st1 where h: "handle_args u n l as (?f0, st) = (func1, st1)"
    by (cases "handle_args u n l as (?f0, st)")
  have "num_var func1 = int (length as)"
    using handle_args_num_var [OF h] by (simp add: FuncVar_init_def)
  then show ?thesis
    unfolding visit_FunctionDef_head_def Let_def h prod.case contains_return_iff
    by (simp add: increase_num_var_def)
qed

section \<open>Results\<close>

text \<open>
  C1. The specification asks that the count recorded with an annotation be the value of one
  counting pass, the attribute reset before the pass and read after it. The code resets
  \<^verbatim>\<open>last_count\<close> after the pass and reads it then: every record holds the count 0, whatever
  the annotation. For the module \<^verbatim>\<open>x: int\<close> the record holds 0, while one pass over
  \<^verbatim>\<open>int\<close> from 0 gives 1.
\<close>

theorem recorded_count_is_zero:
  "count (last (annotations
     (completely_handle_annotation unparse annot fv_name ln fvt a_name st))) = 0 \<and>
   map count (annotations (analyze_module unparse 1 ''m.py'' module_x_int)) = [0] \<and>
   handle_annotation_basic (Name ''int'') 0 = 1"
  by (simp add: completely_handle_annotation_def Let_def analyze_module_def module_x_int_def
      visit_AnnAssign_def AnnotationAnalyzer_init_def)

text \<open>
  C2, as the code has it: counting \<^verbatim>\<open>Optional[Union[str, int]]\<close> from an attribute
  reset to 0 gives 4, the number the docstring of \<^verbatim>\<open>handle_annotation_basic\<close> states:
  the names \<^verbatim>\<open>Optional\<close> and \<^verbatim>\<open>Union\<close> are counted as well as \<^verbatim>\<open>str\<close> and \<^verbatim>\<open>int\<close>.
\<close>

theorem optional_union_count_is_4:
  "handle_annotation_basic optional_union_str_int 0 = 4"
  by (simp add: optional_union_str_int_def)

text \<open>C2, as the specification states it (a count of 3), does not hold.\<close>

theorem optional_union_count_not_3:
  "handle_annotation_basic optional_union_str_int 0 \<noteq> 3"
  by (simp add: optional_union_str_int_def)

text \<open>
  C3. After the traversal of a module, the number of annotation records equals the sum of
  \<^verbatim>\<open>num_var_annotated\<close> over all \<^verbatim>\<open>FuncVar\<close> records: the two figures that
  \<^verbatim>\<open>analyze_repository\<close> compares are equal.
\<close>

theorem records_equal_annotated_sum:
  "total_annotated (analyze_module unparse id_repo path body) =
   total_func_vars_annotated (analyze_module unparse id_repo path body)"
  using analyze_module_inv [of unparse id_repo path body]
  by (simp add: walker_inv_def total_annotated_def total_func_vars_annotated_sum)

theorem records_equal_annotated_sum_witness:
  "total_annotated (analyze_module (\<lambda>e. ''int'') 1 ''m.py'' module_mixed) = 3 \<and>
   total_func_vars_annotated (analyze_module (\<lambda>e. ''int'') 1 ''m.py'' module_mixed) = 3"
proof -
  have "total_annotated (analyze_module (\<lambda>e. ''int'') 1 ''m.py'' module_mixed) = 3"
    by (simp add: total_annotated_def analyze_module_def module_mixed_def
        visit_FunctionDef_head_def visit_AnnAssign_def visit_Assign_def plain_var_def
        completely_handle_annotation_def AnnotationAnalyzer_init_def Let_def)
  then show ?thesis
    using records_equal_annotated_sum [of "\<lambda>e. ''int''" 1 "''m.py''" module_mixed]
    by simp
qed

text \<open>
  C4. For a function without a return annotation, \<^verbatim>\<open>contains_return\<close> looks only at
  the statements directly in \<^verbatim>\<open>node.body\<close>. A function whose only \<^verbatim>\<open>return 1\<close> is inside
  an \<^verbatim>\<open>if\<close> is reported with no return slot (one variable, the argument), while the same
  \<^verbatim>\<open>return 1\<close> directly in the body gives two.
\<close>

theorem nested_return_not_counted:
  "contains_return [If (Name ''x'') [Return (Some (Constant (CInt 1)))] []] = False \<and>
   map num_var (funcs_and_vars (analyze_module unparse 1 ''m.py'' module_nested_return)) = [1] \<and>
   map num_var (funcs_and_vars (analyze_module unparse 1 ''m.py'' module_top_return)) = [2]"
  by (simp add: analyze_module_def module_nested_return_def module_top_return_def
      visit_FunctionDef_head_def AnnotationAnalyzer_init_def FuncVar_init_def
      increase_num_var_def Let_def)

text \<open>
  C5. For the partially annotated \<^verbatim>\<open>def f(a: int, b)\<close> the names appended to
  \<^verbatim>\<open>unannotated_names\<close> are \<^verbatim>\<open>a\<close> and \<^verbatim>\<open>b\<close>: the loop appends the name of every
  argument, the annotated \<^verbatim>\<open>a\<close> included.
\<close>

theorem unannotated_names_hold_annotated_argument:
  "unannotated_names (analyze_module unparse 1 ''m.py'' module_partial) = [''a'', ''b'']"
  by (simp add: analyze_module_def module_partial_def visit_FunctionDef_head_def
      completely_handle_annotation_def AnnotationAnalyzer_init_def FuncVar_init_def
      increase_num_var_def increase_num_var_annotated_def Let_def)

text \<open>
  C6. The base type: the head token is the input up to the first \<^verbatim>\<open>[\<close>, \<^verbatim>\<open>,\<close> or space;
  \<^verbatim>\<open>get_base_type\<close> is a function of its input alone, defined on every string (and on
  \<^verbatim>\<open>None\<close>), that answers the empty string on an empty input, the head token when it is in
  the list of Python types (\<^verbatim>\<open>ellipsis\<close> for \<^verbatim>\<open>...\<close>) and \<^verbatim>\<open>user_defined\<close> otherwise; and
  the six pairs of the specification hold.
\<close>

theorem get_base_type_head_token_and_pairs:
  "head_token s = takeWhile (\<lambda>c. c \<noteq> CHR ''['' \<and> c \<noteq> CHR '','' \<and> c \<noteq> CHR '' '') s \<and>
   get_base_type (Some s) =
     (if s = [] then []
      else if head_token s \<in> set python_types
      then (if head_token s = ''...'' then ''ellipsis'' else head_token s)
      else ''user_defined'') \<and>
   get_base_type None = [] \<and>
   get_base_type (Some []) = [] \<and>
   get_base_type (Some ''int'') = ''int'' \<and>
   get_base_type (Some ''Optional[Union[str, int]]'') = ''Optional'' \<and>
   get_base_type (Some ''Callable[]'') = ''Callable'' \<and>
   get_base_type (Some ''MyCustomClass'') = ''user_defined'' \<and>
   get_base_type (Some ''...'') = ''ellipsis''"
proof -
  have "head_token s = takeWhile (\<lambda>c. c \<noteq> CHR ''['' \<and> c \<noteq> CHR '','' \<and> c \<noteq> CHR '' '') s"
    by (rule head_token_takeWhile)
  moreover have "get_base_type (Some s) =
     (if s = [] then []
      else if head_token s \<in> set python_types
      then (if head_token s = ''...'' then ''ellipsis'' else head_token s)
      else ''user_defined'')"
    by (simp add: Let_def)
  moreover have "get_base_type None = []"
    by simp
  moreover have "get_base_type (Some []) = []"
    by simp
  moreover have "get_base_type (Some ''int'') = ''int''"
    by (simp add: head_token_def python_types_def)
  moreover have "get_base_type (Some ''Optional[Union[str, int]]'') = ''Optional''"
    by (simp add: head_token_def python_types_def)
  moreover have "get_base_type (Some ''Callable[]'') = ''Callable''"
    by (simp add: head_token_def python_types_def)
  moreover have "get_base_type (Some ''MyCustomClass'') = ''user_defined''"
    by (simp add: head_token_def python_types_def)
  moreover have "get_base_type (Some ''...'') = ''ellipsis''"
    by (simp add: head_token_def python_types_def)
  ultimately show ?thesis by blast
qed

theorem get_base_type_head_token_and_pairs_witness:
  "head_token ''List[int]'' = ''List'' \<and> get_base_type (Some ''List[int]'') = ''user_defined''"
proof -
  have "takeWhile (\<lambda>c. c \<noteq> CHR ''['' \<and> c \<noteq> CHR '','' \<and> c \<noteq> CHR '' '') ''List[int]'' =
      ''List''"
    by simp
  moreover have "''List'' \<notin> set python_types"
    by (simp add: python_types_def)
  ultimately show ?thesis
    using get_base_type_head_token_and_pairs [of "''List[int]''"] by simp
qed

text \<open>
  C7. On an anomalous shape (boolean operation, dict or set literal, conditional expression,
  lambda, comparison, formatted string) and on any node kind it does not know, the counting
  function is defined (the chain of tests falls through, nothing is raised) and leaves the
  attribute as it was: it adds 0.
\<close>

theorem anomalous_adds_nothing:
  "anomalous t \<Longrightarrow> handle_annotation_basic t c = c"
  by (cases t) simp_all

theorem anomalous_adds_nothing_witness:
  "anomalous (BoolOp Or [Name ''int'', Name ''str'']) \<and>
   handle_annotation_basic (BoolOp Or [Name ''int'', Name ''str'']) 0 = 0"
proof -
  have a: "anomalous (BoolOp Or [Name ''int'', Name ''str''])" by simp
  show ?thesis using a anomalous_adds_nothing [OF a, of 0] by simp
qed

text \<open>
  C8, as the specification states it, asks for a strictly positive count on every
  well-formed tree. The empty tuple \<^verbatim>\<open>()\<close> is a well-formed shape and its count is 0.
\<close>

theorem empty_tuple_count_not_positive:
  "well_formed (Tuple []) \<and> \<not> 0 < handle_annotation_basic (Tuple []) 0"
  by simp

text \<open>
  C8, amended. On a tree built only from the well-formed shapes, one pass from 0 gives the
  number of name and literal leaves that the rules of the table reach; the count is never
  negative, and it is strictly positive when no tuple or list literal on the traversed
  part is empty and every slice there has a lower or an upper bound.
\<close>

theorem well_formed_count_is_reference_count:
  "well_formed t \<Longrightarrow>
   handle_annotation_basic t 0 = spec_leaf_count t \<and>
   0 \<le> handle_annotation_basic t 0 \<and>
   (no_empty_shape t \<longrightarrow> 0 < handle_annotation_basic t 0)"
  using handle_eq_spec [of t] handle_nonneg [of t] handle_pos [of t] by blast

theorem well_formed_count_is_reference_count_witness:
  "well_formed dict_str_int_or_none \<and> no_empty_shape dict_str_int_or_none \<and>
   handle_annotation_basic dict_str_int_or_none 0 = 4 \<and>
   spec_leaf_count dict_str_int_or_none = 4"
proof -
  have a: "well_formed dict_str_int_or_none"
    by (simp add: dict_str_int_or_none_def)
  have b: "no_empty_shape dict_str_int_or_none"
    by (simp add: dict_str_int_or_none_def)
  have c: "spec_leaf_count dict_str_int_or_none = 4"
    by (simp add: dict_str_int_or_none_def)
  show ?thesis
    using a b c well_formed_count_is_reference_count [OF a] by simp
qed

text \<open>
  C9. Every \<^verbatim>\<open>FuncVar\<close> in the list after the traversal of a module, whether it comes from
  a function definition, an annotated assignment or a plain assignment, has
  \<^verbatim>\<open>0 <= num_var_annotated <= num_var\<close>.
\<close>

theorem annotated_at_most_total:
  "\<forall>fv \<in> set (funcs_and_vars (analyze_module unparse id_repo path body)).
     0 \<le> num_var_annotated fv \<and> num_var_annotated fv \<le> num_var fv"
  using analyze_module_inv [of unparse id_repo path body]
  by (simp add: walker_inv_def list_all_iff site_ok_def)

theorem annotated_at_most_total_witness:
  "map (\<lambda>fv. (num_var_annotated fv, num_var fv))
     (funcs_and_vars (analyze_module (\<lambda>e. ''int'') 1 ''m.py'' module_mixed)) =
     [(2, 3), (0, 1), (0, 1), (1, 1)] \<and>
   list_all (\<lambda>fv. 0 \<le> num_var_annotated fv \<and> num_var_annotated fv \<le> num_var fv)
     (funcs_and_vars (analyze_module (\<lambda>e. ''int'') 1 ''m.py'' module_mixed))"
proof -
  have "map (\<lambda>fv. (num_var_annotated fv, num_var fv))
     (funcs_and_vars (analyze_module (\<lambda>e. ''int'') 1 ''m.py'' module_mixed)) =
     [(2, 3), (0, 1), (0, 1), (1, 1)]"
    by (simp add: analyze_module_def module_mixed_def
        visit_FunctionDef_head_def visit_AnnAssign_def visit_Assign_def plain_var_def
        completely_handle_annotation_def AnnotationAnalyzer_init_def FuncVar_init_def
        increase_num_var_def increase_num_var_annotated_def Let_def)
  then show ?thesis
    using annotated_at_most_total [of "\<lambda>e. ''int''" 1 "''m.py''" module_mixed]
    by (simp add: list_all_iff)
qed

text \<open>
  C10. One call of \<^verbatim>\<open>completely_handle_annotation\<close> adds one to \<^verbatim>\<open>total_annotations\<close> and
  one record to \<^verbatim>\<open>annotations\<close>; after the traversal of a module the counter equals the
  length of the list.
\<close>

theorem counter_equals_number_of_records:
  "total_annotations (completely_handle_annotation unparse annot fv_name ln fvt a_name st) =
     total_annotations st + 1 \<and>
   length (annotations (completely_handle_annotation unparse annot fv_name ln fvt a_name st)) =
     length (annotations st) + 1 \<and>
   total_annotations (analyze_module unparse id_repo path body) =
     total_annotated (analyze_module unparse id_repo path body)"
  using analyze_module_inv [of unparse id_repo path body]
  by (simp add: walker_inv_def total_annotated_def)

theorem counter_equals_number_of_records_witness:
  "total_annotations (analyze_module (\<lambda>e. ''int'') 1 ''m.py'' module_partial) = 1 \<and>
   total_annotated (analyze_module (\<lambda>e. ''int'') 1 ''m.py'' module_partial) = 1"
proof -
  have "total_annotations (analyze_module (\<lambda>e. ''int'') 1 ''m.py'' module_partial) = 1"
    by (simp add: analyze_module_def module_partial_def visit_FunctionDef_head_def
        completely_handle_annotation_def AnnotationAnalyzer_init_def Let_def)
  then show ?thesis
    using counter_equals_number_of_records
      [of "\<lambda>e. ''int''" "Name ''int''" "''f''" 1 FUNCTION_ARG "''a''"
          "AnnotationAnalyzer_init 1 ''m.py''" 1 "''m.py''" module_partial]
    by simp
qed

end
